theory Spec2Isabelle
  imports Main "HOL-Library.Sublist"
begin

section \<open>The alert system of the task manager front end\<close>

text \<open>
  The repository holds two versions of the application file; both define the same
  \<^verbatim>\<open>AlertsProvider\<close> (toasts and a confirm modal) with the operations
  \<^verbatim>\<open>showToast\<close>, \<^verbatim>\<open>hideToast\<close> and \<^verbatim>\<open>confirm\<close>. The two
  providers agree character by character except for one literal: the delay used when a
  toast is posted without a \<^verbatim>\<open>timeout\<close> field is 4000 in the first file and 3000
  in the second (the one whose header names it \<^verbatim>\<open>src/App.tsx\<close>).

  The provider is a React component: its state is the pair of \<^verbatim>\<open>useState\<close> cells
  \<^verbatim>\<open>toasts\<close> and \<^verbatim>\<open>confirmModal\<close>. The code also reaches three pieces of
  platform state, which the model makes explicit: the promises created by
  \<^verbatim>\<open>new Promise\<close>, the timers registered with \<^verbatim>\<open>setTimeout\<close>, and the clock.
\<close>

subsection \<open>Data model\<close>

text \<open>\<^verbatim>\<open>type ToastType = "success" | "error" | "info" | "warning"\<close>\<close>

datatype ToastType = success | error | info | warning

text \<open>
  \<^verbatim>\<open>timeout?: number | null\<close>: the field is omitted (undefined), null, or a number of
  milliseconds.
\<close>

datatype timeout_field = Omitted | Null | Ms int

text \<open>\<^verbatim>\<open>ToastItem\<close>, and the argument of \<^verbatim>\<open>showToast\<close>, \<^verbatim>\<open>Omit<ToastItem, "id">\<close>.\<close>

record ToastItem =
  toast_id :: string
  toast_type :: "ToastType option"
  toast_title :: "string option"
  toast_message :: string
  toast_timeout :: timeout_field

record ToastPayload =
  p_type :: "ToastType option"
  p_title :: "string option"
  p_message :: string
  p_timeout :: timeout_field

text \<open>
  A promise of the platform: pending until its \<^verbatim>\<open>resolve\<close> function is called for the
  first time, then fulfilled with that value for good. The executor passed to
  \<^verbatim>\<open>new Promise\<close> in \<^verbatim>\<open>confirm\<close> takes no \<^verbatim>\<open>reject\<close> function.
\<close>

datatype promise_state = Pending | Fulfilled bool | Rejected

type_synonym promise_ref = nat

text \<open>
  \<^verbatim>\<open>ConfirmPayload\<close>. Its \<^verbatim>\<open>resolve\<close> field is a closure over the promise's own
  \<^verbatim>\<open>resolve\<close> function; the model stores the promise it belongs to, and
  \<open>call_resolve\<close> below is the closure's body.
\<close>

record ConfirmPayload =
  confirm_id :: string
  confirm_title :: "string option"
  confirm_message :: string
  okLabel :: "string option"
  cancelLabel :: "string option"
  resolve :: promise_ref

text \<open>The argument of \<^verbatim>\<open>confirm\<close>.\<close>

record ConfirmOpts =
  o_title :: "string option"
  o_message :: string
  o_okLabel :: "string option"
  o_cancelLabel :: "string option"

text \<open>
  A timer registered by \<^verbatim>\<open>setTimeout(() => setToasts(s => s.filter(x => x.id !== id)), t)\<close>:
  the id its callback closes over, the delay \<open>t\<close>, and the clock value at registration.
\<close>

record timer =
  timer_toast :: string
  delay :: int
  set_at :: nat

record alerts_state =
  toasts :: "ToastItem list"
  confirmModal :: "ConfirmPayload option"
  promises :: "promise_state list"
  timers :: "timer list"
  now :: nat

text \<open>\<^verbatim>\<open>useState<ToastItem[]>([])\<close>, \<^verbatim>\<open>useState<ConfirmPayload | null>(null)\<close>.\<close>

definition AlertsProvider_init :: alerts_state where
  "AlertsProvider_init =
     \<lparr>toasts = [], confirmModal = None, promises = [], timers = [], now = 0\<rparr>"

subsection \<open>Platform operations\<close>

text \<open>
  \<^verbatim>\<open>Math.random().toString(36).slice(2, 9)\<close>: the argument \<open>rnd\<close> is the base-36
  rendering of the random number (such as \<^verbatim>\<open>0.k3x9q1zt7af\<close>), an outcome the code does
  not control; \<^verbatim>\<open>slice(2, 9)\<close> keeps the characters at positions 2 to 8.
\<close>

definition gen_id :: "string \<Rightarrow> string" where
  "gen_id rnd = take 7 (drop 2 rnd)"

text \<open>\<^verbatim>\<open>setTimeout(cb, t)\<close> registers a single-shot timer.\<close>

definition setTimeout :: "string \<Rightarrow> int \<Rightarrow> alerts_state \<Rightarrow> alerts_state" where
  "setTimeout i t s =
     s\<lparr>timers := timers s @ [\<lparr>timer_toast = i, delay = t, set_at = now s\<rparr>]\<rparr>"

text \<open>
  The earliest clock value at which a timer may fire; a negative delay counts as 0.
\<close>

definition due :: "timer \<Rightarrow> int" where
  "due t = int (set_at t) + max 0 (delay t)"

text \<open>
  The \<^verbatim>\<open>resolve\<close> function of a promise settles it on the first call and does
  nothing afterwards.
\<close>

definition settle :: "promise_ref \<Rightarrow> bool \<Rightarrow> promise_state list \<Rightarrow> promise_state list" where
  "settle q v ps =
     (if q < length ps \<and> ps ! q = Pending then ps[q := Fulfilled v] else ps)"

subsection \<open>The provider's operations\<close>

text \<open>\<^verbatim>\<open>const item: ToastItem = { id, ...payload }\<close>\<close>

definition ToastItem_of :: "string \<Rightarrow> ToastPayload \<Rightarrow> ToastItem" where
  "ToastItem_of i payload =
     \<lparr>toast_id = i, toast_type = p_type payload, toast_title = p_title payload,
      toast_message = p_message payload, toast_timeout = p_timeout payload\<rparr>"

text \<open>
  \<^verbatim>\<open>
  const showToast = useCallback((payload) => {
    const id = Math.random().toString(36).slice(2, 9);
    const item: ToastItem = { id, ...payload };
    setToasts((s) => [item, ...s]);
    if (payload.timeout !== null) {
      const t = payload.timeout ?? 4000;          // 3000 in the second file
      setTimeout(() => setToasts((s) => s.filter((x) => x.id !== id)), t);
    }
    return id;
  }, []);
  \<close>
  The body is modelled once, with the literal as the parameter \<open>dflt\<close>.
\<close>

definition showToast_with ::
  "int \<Rightarrow> ToastPayload \<Rightarrow> string \<Rightarrow> alerts_state \<Rightarrow> string \<times> alerts_state" where
  "showToast_with dflt payload rnd s =
     (let i = gen_id rnd;
          item = ToastItem_of i payload;
          s1 = s\<lparr>toasts := item # toasts s\<rparr>;
          s2 = (case p_timeout payload of
                  Null \<Rightarrow> s1
                | Omitted \<Rightarrow> setTimeout i dflt s1
                | Ms t \<Rightarrow> setTimeout i t s1)
      in (i, s2))"

text \<open>The provider of the first file, and the provider of the second file.\<close>

definition showToast :: "ToastPayload \<Rightarrow> string \<Rightarrow> alerts_state \<Rightarrow> string \<times> alerts_state" where
  "showToast = showToast_with 4000"

definition showToast_App :: "ToastPayload \<Rightarrow> string \<Rightarrow> alerts_state \<Rightarrow> string \<times> alerts_state" where
  "showToast_App = showToast_with 3000"

text \<open>The callback of the timer: \<^verbatim>\<open>() => setToasts((s) => s.filter((x) => x.id !== id))\<close>\<close>

definition timeout_callback :: "string \<Rightarrow> alerts_state \<Rightarrow> alerts_state" where
  "timeout_callback i s = s\<lparr>toasts := filter (\<lambda>x. toast_id x \<noteq> i) (toasts s)\<rparr>"

text \<open>\<^verbatim>\<open>const hideToast = useCallback((id) => setToasts((s) => s.filter((t) => t.id !== id)), [])\<close>\<close>

definition hideToast :: "string \<Rightarrow> alerts_state \<Rightarrow> alerts_state" where
  "hideToast i s = s\<lparr>toasts := filter (\<lambda>t. toast_id t \<noteq> i) (toasts s)\<rparr>"

text \<open>
  \<^verbatim>\<open>
  const confirm = useCallback((opts) => {
    return new Promise<boolean>((resolve) => {
      const id = Math.random().toString(36).slice(2, 9);
      setConfirmModal({
        id, title: opts.title, message: opts.message,
        okLabel: opts.okLabel ?? "OK",
        cancelLabel: opts.cancelLabel ?? "Annuler",
        resolve: (v: boolean) => { resolve(v); setConfirmModal(null); },
      });
    });
  }, []);
  \<close>
  \<^verbatim>\<open>new Promise\<close> allocates the next promise and runs the executor at once; the
  function returns the promise.
\<close>

definition confirm :: "ConfirmOpts \<Rightarrow> string \<Rightarrow> alerts_state \<Rightarrow> promise_ref \<times> alerts_state" where
  "confirm opts rnd s =
     (let q = length (promises s);
          s1 = s\<lparr>promises := promises s @ [Pending]\<rparr>;
          i = gen_id rnd
      in (q, s1\<lparr>confirmModal := Some
            \<lparr>confirm_id = i, confirm_title = o_title opts, confirm_message = o_message opts,
             okLabel = Some (case o_okLabel opts of None \<Rightarrow> ''OK'' | Some l \<Rightarrow> l),
             cancelLabel = Some (case o_cancelLabel opts of None \<Rightarrow> ''Annuler'' | Some l \<Rightarrow> l),
             resolve = q\<rparr>\<rparr>))"

text \<open>
  The closure stored in the payload: \<^verbatim>\<open>(v) => { resolve(v); setConfirmModal(null); }\<close>
\<close>

definition call_resolve :: "ConfirmPayload \<Rightarrow> bool \<Rightarrow> alerts_state \<Rightarrow> alerts_state" where
  "call_resolve p v s =
     s\<lparr>promises := settle (resolve p) v (promises s), confirmModal := None\<rparr>"

text \<open>
  The two buttons of the modal,
  \<^verbatim>\<open>onClick={() => confirmModal.resolve(false)}\<close> and
  \<^verbatim>\<open>onClick={() => confirmModal.resolve(true)}\<close>. They are rendered only while
  \<^verbatim>\<open>confirmModal\<close> is not null; with no modal there is nothing to click.
\<close>

definition click :: "bool \<Rightarrow> alerts_state \<Rightarrow> alerts_state" where
  "click v s = (case confirmModal s of None \<Rightarrow> s | Some p \<Rightarrow> call_resolve p v s)"

subsection \<open>The event loop\<close>

text \<open>
  The clock moves forward; the \<open>k\<close>-th registered timer fires, once, when its delay
  has elapsed, and is then gone from the set of registered timers. A timer that is not
  yet due, or a position that holds no timer, cannot fire.
\<close>

definition tick :: "nat \<Rightarrow> alerts_state \<Rightarrow> alerts_state" where
  "tick n s = s\<lparr>now := now s + n\<rparr>"

definition fire :: "nat \<Rightarrow> alerts_state \<Rightarrow> alerts_state" where
  "fire k s =
     (if k < length (timers s) \<and> due (timers s ! k) \<le> int (now s)
      then timeout_callback (timer_toast (timers s ! k))
             (s\<lparr>timers := take k (timers s) @ drop (Suc k) (timers s)\<rparr>)
      else s)"

text \<open>
  Everything that can happen to a mounted provider: a call of one of its three
  operations from a screen, a click on a button of the modal it renders, the passing of
  time, and the firing of a timer.
\<close>

datatype event =
    Post ToastPayload string
  | Hide string
  | Confirm ConfirmOpts string
  | Click bool
  | Tick nat
  | Fire nat

fun step :: "int \<Rightarrow> event \<Rightarrow> alerts_state \<Rightarrow> alerts_state" where
  "step dflt (Post payload rnd) s = snd (showToast_with dflt payload rnd s)"
| "step dflt (Hide i) s = hideToast i s"
| "step dflt (Confirm opts rnd) s = snd (confirm opts rnd s)"
| "step dflt (Click v) s = click v s"
| "step dflt (Tick n) s = tick n s"
| "step dflt (Fire k) s = fire k s"

fun run :: "int \<Rightarrow> event list \<Rightarrow> alerts_state \<Rightarrow> alerts_state" where
  "run dflt [] s = s"
| "run dflt (e # es) s = run dflt es (step dflt e s)"

text \<open>A sequence of \<^verbatim>\<open>showToast\<close> calls, collecting the ids they return.\<close>

fun post_all ::
  "int \<Rightarrow> (ToastPayload \<times> string) list \<Rightarrow> alerts_state \<Rightarrow> string list \<times> alerts_state" where
  "post_all dflt [] s = ([], s)"
| "post_all dflt ((payload, rnd) # rest) s =
     (let (i, s1) = showToast_with dflt payload rnd s;
          (is, s2) = post_all dflt rest s1
      in (i # is, s2))"

text \<open>The ids in the registry, in display order.\<close>

definition ids :: "alerts_state \<Rightarrow> string list" where
  "ids s = map toast_id (toasts s)"

text \<open>The time that passes during a sequence of events.\<close>

fun elapsed :: "event list \<Rightarrow> nat" where
  "elapsed [] = 0"
| "elapsed (Tick n # es) = n + elapsed es"
| "elapsed (e # es) = elapsed es"

text \<open>
  An event that is neither a call of \<^verbatim>\<open>hideToast\<close> with the id \<open>i\<close> nor a call of
  \<^verbatim>\<open>showToast\<close> that draws the id \<open>i\<close> again.
\<close>

fun leaves_alone :: "string \<Rightarrow> event \<Rightarrow> bool" where
  "leaves_alone i (Hide j) = (j \<noteq> i)"
| "leaves_alone i (Post payload rnd) = (gen_id rnd \<noteq> i)"
| "leaves_alone i e = True"

text \<open>
  A sequence of events in which every \<^verbatim>\<open>showToast\<close> draws an id that no toast of
  the registry carries at that moment.
\<close>

fun fresh_posts :: "int \<Rightarrow> event list \<Rightarrow> alerts_state \<Rightarrow> bool" where
  "fresh_posts dflt [] s = True"
| "fresh_posts dflt (Post payload rnd # es) s =
     (gen_id rnd \<notin> set (ids s) \<and> fresh_posts dflt es (step dflt (Post payload rnd) s))"
| "fresh_posts dflt (e # es) s = fresh_posts dflt es (step dflt e s)"

text \<open>Events that concern toasts only: they are not calls of \<^verbatim>\<open>confirm\<close> nor clicks on the modal.\<close>

fun toast_event :: "event \<Rightarrow> bool" where
  "toast_event (Confirm opts rnd) = False"
| "toast_event (Click v) = False"
| "toast_event e = True"

text \<open>A \<^verbatim>\<open>showToast\<close> call that draws the id \<open>i\<close>.\<close>

fun posts_id :: "string \<Rightarrow> event \<Rightarrow> bool" where
  "posts_id i (Post payload rnd) = (gen_id rnd = i)"
| "posts_id i e = False"

text \<open>No registered timer closes over the id \<open>i\<close>.\<close>

definition no_timer_for :: "string \<Rightarrow> alerts_state \<Rightarrow> bool" where
  "no_timer_for i s = list_all (\<lambda>t. timer_toast t \<noteq> i) (timers s)"

text \<open>
  No registered timer that closes over the id \<open>i\<close> can fire within the next \<open>n\<close>
  milliseconds.
\<close>

definition safe_from_timers :: "string \<Rightarrow> nat \<Rightarrow> alerts_state \<Rightarrow> bool" where
  "safe_from_timers i n s \<longleftrightarrow>
     (\<forall>t\<in>set (timers s). timer_toast t = i \<longrightarrow> int (now s) + int n < due t)"

text \<open>
  A promise that is pending while the modal does not hold its \<^verbatim>\<open>resolve\<close> function.
\<close>

definition orphaned :: "promise_ref \<Rightarrow> alerts_state \<Rightarrow> bool" where
  "orphaned q s \<longleftrightarrow>
     q < length (promises s) \<and> promises s ! q = Pending \<and>
     map_option resolve (confirmModal s) \<noteq> Some q"

subsection \<open>Exceptions and effects\<close>

text \<open>
  To speak about what an operation raises and what it does to the world outside the
  provider, the operations are also read as programs of platform calls. A program runs on
  a world, made of the provider's state, the browser's \<^verbatim>\<open>localStorage\<close> and the trace
  of effects so far, and ends either with a value or with the exception it raised; the
  effects made before an exception stay.

  The exceptions of the code in scope are the \<^verbatim>\<open>RangeError\<close> that
  \<^verbatim>\<open>Number.prototype.toString\<close> raises for a radix outside 2 to 36, and the
  \<^verbatim>\<open>Error\<close> that \<^verbatim>\<open>useAlerts\<close> throws. The drawn random number is an input, not an
  effect.
\<close>

datatype js_error = RangeError | Error string

datatype effect = SetToasts | SetTimer string int | StorageGet string

text \<open>Input and output: of the effects above, the access to \<^verbatim>\<open>localStorage\<close>.\<close>

fun is_io :: "effect \<Rightarrow> bool" where
  "is_io (StorageGet k) = True"
| "is_io e = False"

record world =
  alerts :: alerts_state
  storage :: "string \<rightharpoonup> string"
  effects :: "effect list"

type_synonym 'a prog = "world \<Rightarrow> (js_error + 'a) \<times> world"

definition return_prog :: "'a \<Rightarrow> 'a prog" where
  "return_prog x w = (Inr x, w)"

definition throw_prog :: "js_error \<Rightarrow> 'a prog" where
  "throw_prog e w = (Inl e, w)"

text \<open>Sequencing: an exception ends the program.\<close>

definition bind_prog :: "'a prog \<Rightarrow> ('a \<Rightarrow> 'b prog) \<Rightarrow> 'b prog" where
  "bind_prog m f w = (case m w of (Inl e, w') \<Rightarrow> (Inl e, w') | (Inr x, w') \<Rightarrow> f x w')"

text \<open>
  \<^verbatim>\<open>x.toString(radix)\<close>: the argument \<open>rendering\<close> is the rendering of the number,
  returned when the radix is accepted.
\<close>

definition Number_toString :: "nat \<Rightarrow> string \<Rightarrow> string prog" where
  "Number_toString radix rendering =
     (if 2 \<le> radix \<and> radix \<le> 36 then return_prog rendering else throw_prog RangeError)"

text \<open>\<^verbatim>\<open>str.slice(a, b)\<close> for indices that are not negative.\<close>

definition String_slice :: "nat \<Rightarrow> nat \<Rightarrow> string \<Rightarrow> string" where
  "String_slice a b str = take (b - a) (drop a str)"

text \<open>\<^verbatim>\<open>setToasts(f)\<close>, the setter of the \<^verbatim>\<open>toasts\<close> cell.\<close>

definition setToasts :: "(ToastItem list \<Rightarrow> ToastItem list) \<Rightarrow> unit prog" where
  "setToasts f w =
     (Inr (), w\<lparr>alerts := (alerts w)\<lparr>toasts := f (toasts (alerts w))\<rparr>,
                effects := effects w @ [SetToasts]\<rparr>)"

text \<open>\<^verbatim>\<open>setTimeout(cb, t)\<close> with the callback that removes the toasts with id \<open>i\<close>.\<close>

definition window_setTimeout :: "string \<Rightarrow> int \<Rightarrow> unit prog" where
  "window_setTimeout i t w =
     (Inr (), w\<lparr>alerts := setTimeout i t (alerts w),
                effects := effects w @ [SetTimer i t]\<rparr>)"

text \<open>\<^verbatim>\<open>localStorage.getItem(k)\<close>\<close>

definition localStorage_getItem :: "string \<Rightarrow> string option prog" where
  "localStorage_getItem k w = (Inr (storage w k), w\<lparr>effects := effects w @ [StorageGet k]\<rparr>)"

text \<open>
  \<^verbatim>\<open>showToast\<close>, statement by statement:
  \<^verbatim>\<open>
    const id = Math.random().toString(36).slice(2, 9);
    const item: ToastItem = { id, ...payload };
    setToasts((s) => [item, ...s]);
    if (payload.timeout !== null) {
      const t = payload.timeout ?? 4000;
      setTimeout(() => setToasts((s) => s.filter((x) => x.id !== id)), t);
    }
    return id;
  \<close>
\<close>

definition showToast_prog :: "int \<Rightarrow> ToastPayload \<Rightarrow> string \<Rightarrow> string prog" where
  "showToast_prog dflt payload rnd =
     bind_prog (Number_toString 36 rnd) (\<lambda>str.
       let i = String_slice 2 9 str;
           item = ToastItem_of i payload
       in bind_prog (setToasts (\<lambda>s. item # s)) (\<lambda>_.
          bind_prog (case p_timeout payload of
                       Null \<Rightarrow> return_prog ()
                     | Omitted \<Rightarrow> window_setTimeout i dflt
                     | Ms t \<Rightarrow> window_setTimeout i t) (\<lambda>_.
          return_prog i)))"

text \<open>
  Two neighbours of \<^verbatim>\<open>showToast\<close> that do raise and do access storage. The hook through
  which the screens reach the provider:
  \<^verbatim>\<open>
  export const useAlerts = () => {
    const ctx = useContext(AlertsContext);
    if (!ctx) throw new Error("useAlerts must be used inside AlertsProvider");
    return ctx;
  };
  \<close>
  and the request interceptor of \<^verbatim>\<open>src/lib/api.ts\<close>:
  \<^verbatim>\<open>
  api.interceptors.request.use((config) => {
    const token = localStorage.getItem("token");
    if (token) {
      config.headers = config.headers || {};
      config.headers.Authorization = `Bearer ${token}`;
    }
    return config;
  });
  \<close>
\<close>

definition useAlerts :: "'ctx option \<Rightarrow> 'ctx prog" where
  "useAlerts ctx =
     (case ctx of
        None \<Rightarrow> throw_prog (Error ''useAlerts must be used inside AlertsProvider'')
      | Some c \<Rightarrow> return_prog c)"

record request_config =
  headers :: "(string \<rightharpoonup> string) option"

definition request_interceptor :: "request_config \<Rightarrow> request_config prog" where
  "request_interceptor config =
     bind_prog (localStorage_getItem ''token'') (\<lambda>token.
       case token of
         None \<Rightarrow> return_prog config
       | Some t \<Rightarrow>
           if t = [] then return_prog config
           else return_prog (config\<lparr>headers := Some
                  ((case headers config of None \<Rightarrow> Map.empty | Some h \<Rightarrow> h)
                     (''Authorization'' \<mapsto> ''Bearer '' @ t))\<rparr>))"

subsection \<open>Concrete inputs\<close>

text \<open>
  Inputs for the concrete statements below. Two are call sites of the application,
  \<^verbatim>\<open>alerts.showToast({ type: "success", message: "Groupe rejoint" })\<close> and
  \<^verbatim>\<open>alerts.confirm({ message: "Retirer ce membre du groupe ?", okLabel: "Retirer", cancelLabel: "Annuler" })\<close>;
  the others are a toast that asks never to be dismissed automatically and a confirmation
  that leaves both labels to their defaults.
\<close>

definition toast_joined :: ToastPayload where
  "toast_joined =
     \<lparr>p_type = Some success, p_title = None, p_message = ''Groupe rejoint'',
      p_timeout = Omitted\<rparr>"

definition toast_sticky :: ToastPayload where
  "toast_sticky =
     \<lparr>p_type = Some info, p_title = None, p_message = ''Donne un nom au groupe'',
      p_timeout = Null\<rparr>"

definition confirm_remove :: ConfirmOpts where
  "confirm_remove =
     \<lparr>o_title = None, o_message = ''Retirer ce membre du groupe ?'',
      o_okLabel = Some ''Retirer'', o_cancelLabel = Some ''Annuler''\<rparr>"

definition confirm_delete :: ConfirmOpts where
  "confirm_delete =
     \<lparr>o_title = None, o_message = ''Supprimer ce groupe et toutes ses taches ?'',
      o_okLabel = None, o_cancelLabel = None\<rparr>"

text \<open>Two outcomes of \<^verbatim>\<open>Math.random().toString(36)\<close>.\<close>

definition rnd_a :: string where
  "rnd_a = ''0.4fzyo82mvyr''"

definition rnd_b :: string where
  "rnd_b = ''0.k3x9q1zt7af''"

text \<open>The registry after one toast has been posted.\<close>

definition one_toast :: alerts_state where
  "one_toast = snd (showToast toast_joined rnd_a AlertsProvider_init)"

text \<open>A toast with an explicit timeout, as in \<^verbatim>\<open>alerts.showToast({ ..., timeout: 2500 })\<close>.\<close>

definition toast_welcome :: ToastPayload where
  "toast_welcome =
     \<lparr>p_type = Some success, p_title = None, p_message = ''Bienvenue !'',
      p_timeout = Ms 2500\<rparr>"

text \<open>
  The provider after \<^verbatim>\<open>confirm\<close> has been called once, the payload it shows, and the
  provider after \<^verbatim>\<open>confirm\<close> has been called a second time with nothing clicked in
  between, with the payload it shows then.
\<close>

definition one_pending :: alerts_state where
  "one_pending = snd (confirm confirm_remove rnd_a AlertsProvider_init)"

definition payload_remove :: ConfirmPayload where
  "payload_remove =
     \<lparr>confirm_id = ''4fzyo82'', confirm_title = None,
      confirm_message = ''Retirer ce membre du groupe ?'',
      okLabel = Some ''Retirer'', cancelLabel = Some ''Annuler'', resolve = 0\<rparr>"

definition payload_delete :: ConfirmPayload where
  "payload_delete =
     \<lparr>confirm_id = ''k3x9q1z'', confirm_title = None,
      confirm_message = ''Supprimer ce groupe et toutes ses taches ?'',
      okLabel = Some ''OK'', cancelLabel = Some ''Annuler'', resolve = 1\<rparr>"

definition two_requests :: alerts_state where
  "two_requests = snd (confirm confirm_delete rnd_b one_pending)"

section \<open>Basic facts\<close>

lemma toasts_showToast_with:
  "toasts (snd (showToast_with d p r s)) = ToastItem_of (gen_id r) p # toasts s"
  by (simp add: showToast_with_def setTimeout_def Let_def split: timeout_field.splits)

lemma fst_showToast_with: "fst (showToast_with d p r s) = gen_id r"
  by (simp add: showToast_with_def Let_def)

lemma toast_id_ToastItem_of: "toast_id (ToastItem_of i p) = i"
  by (simp add: ToastItem_of_def)

lemma confirmModal_showToast_with [simp]:
  "confirmModal (snd (showToast_with d p r s)) = confirmModal s"
  by (simp add: showToast_with_def setTimeout_def Let_def split: timeout_field.splits)

lemma promises_showToast_with [simp]:
  "promises (snd (showToast_with d p r s)) = promises s"
  by (simp add: showToast_with_def setTimeout_def Let_def split: timeout_field.splits)

lemma now_showToast_with [simp]:
  "now (snd (showToast_with d p r s)) = now s"
  by (simp add: showToast_with_def setTimeout_def Let_def split: timeout_field.splits)

lemma timers_showToast_with:
  "timers (snd (showToast_with d p r s)) =
     timers s @ (case p_timeout p of
                   Null \<Rightarrow> []
                 | Omitted \<Rightarrow> [\<lparr>timer_toast = gen_id r, delay = d, set_at = now s\<rparr>]
                 | Ms t \<Rightarrow> [\<lparr>timer_toast = gen_id r, delay = t, set_at = now s\<rparr>])"
  by (simp add: showToast_with_def setTimeout_def Let_def split: timeout_field.splits)

lemma timer_toast_showToast_with:
  "t \<in> set (timers (snd (showToast_with d p r s))) \<Longrightarrow>
   t \<in> set (timers s) \<or> timer_toast t = gen_id r"
  by (auto simp: timers_showToast_with split: timeout_field.splits)

lemma hideToast_fields [simp]:
  "toasts (hideToast i s) = filter (\<lambda>t. toast_id t \<noteq> i) (toasts s)"
  "confirmModal (hideToast i s) = confirmModal s"
  "promises (hideToast i s) = promises s"
  "timers (hideToast i s) = timers s"
  "now (hideToast i s) = now s"
  by (simp_all add: hideToast_def)

lemma timeout_callback_fields [simp]:
  "toasts (timeout_callback i s) = filter (\<lambda>t. toast_id t \<noteq> i) (toasts s)"
  "confirmModal (timeout_callback i s) = confirmModal s"
  "promises (timeout_callback i s) = promises s"
  "timers (timeout_callback i s) = timers s"
  "now (timeout_callback i s) = now s"
  by (simp_all add: timeout_callback_def)

lemma confirm_fields [simp]:
  "fst (confirm opts r s) = length (promises s)"
  "toasts (snd (confirm opts r s)) = toasts s"
  "promises (snd (confirm opts r s)) = promises s @ [Pending]"
  "timers (snd (confirm opts r s)) = timers s"
  "now (snd (confirm opts r s)) = now s"
  "map_option resolve (confirmModal (snd (confirm opts r s))) = Some (length (promises s))"
  by (simp_all add: confirm_def Let_def)

lemma call_resolve_fields [simp]:
  "toasts (call_resolve p v s) = toasts s"
  "promises (call_resolve p v s) = settle (resolve p) v (promises s)"
  "confirmModal (call_resolve p v s) = None"
  "timers (call_resolve p v s) = timers s"
  "now (call_resolve p v s) = now s"
  by (simp_all add: call_resolve_def)

lemma click_fields [simp]:
  "toasts (click v s) = toasts s"
  "confirmModal (click v s) = None"
  "timers (click v s) = timers s"
  "now (click v s) = now s"
  by (simp_all add: click_def split: option.splits)

lemma tick_fields [simp]:
  "toasts (tick n s) = toasts s"
  "confirmModal (tick n s) = confirmModal s"
  "promises (tick n s) = promises s"
  "timers (tick n s) = timers s"
  "now (tick n s) = now s + n"
  by (simp_all add: tick_def)

lemma fire_fields [simp]:
  "confirmModal (fire k s) = confirmModal s"
  "promises (fire k s) = promises s"
  "now (fire k s) = now s"
  by (simp_all add: fire_def)

lemma length_settle [simp]: "length (settle q v ps) = length ps"
  by (simp add: settle_def)

lemma settle_other: "q' \<noteq> q \<Longrightarrow> settle q v ps ! q' = ps ! q'"
  by (simp add: settle_def)

lemma settle_Fulfilled: "ps ! q = Fulfilled w \<Longrightarrow> settle q' v ps ! q = Fulfilled w"
  by (cases "q' = q") (simp_all add: settle_def)

lemma settle_Pending: "q < length ps \<Longrightarrow> ps ! q = Pending \<Longrightarrow> settle q v ps ! q = Fulfilled v"
  by (simp add: settle_def)

lemma settle_settled: "ps ! q \<noteq> Pending \<Longrightarrow> settle q v ps = ps"
  by (simp add: settle_def)

lemma set_timers_fire: "set (timers (fire k s)) \<subseteq> set (timers s)"
  by (auto simp: fire_def dest: in_set_takeD in_set_dropD)

lemma toasts_fire:
  "toasts (fire k s) =
     (if k < length (timers s) \<and> due (timers s ! k) \<le> int (now s)
      then filter (\<lambda>x. toast_id x \<noteq> timer_toast (timers s ! k)) (toasts s) else toasts s)"
  by (simp add: fire_def)

text \<open>Unfolding the concrete inputs and the operations, for evaluation.\<close>

lemmas ex_defs = one_toast_def one_pending_def two_requests_def payload_remove_def payload_delete_def
  toast_joined_def toast_sticky_def toast_welcome_def confirm_remove_def confirm_delete_def
  rnd_a_def rnd_b_def AlertsProvider_init_def

lemmas op_defs = showToast_def showToast_App_def showToast_with_def setTimeout_def ToastItem_of_def
  gen_id_def hideToast_def timeout_callback_def confirm_def call_resolve_def click_def settle_def
  tick_def fire_def due_def ids_def Let_def

section \<open>The toast registry\<close>

subsection \<open>Order of display\<close>

lemma post_all_toasts:
  "toasts (snd (post_all d prs s)) = rev (map (\<lambda>(p, r). ToastItem_of (gen_id r) p) prs) @ toasts s"
proof (induction prs arbitrary: s)
  case Nil
  show ?case by simp
next
  case (Cons a prs)
  obtain p r where a: "a = (p, r)" by (cases a)
  have "toasts (snd (post_all d (a # prs) s)) = toasts (snd (post_all d prs (snd (showToast_with d p r s))))"
    by (simp add: a split_beta Let_def)
  also have "\<dots> = rev (map (\<lambda>(p, r). ToastItem_of (gen_id r) p) prs) @ toasts (snd (showToast_with d p r s))"
    by (rule Cons.IH)
  finally show ?case
    by (simp add: a toasts_showToast_with)
qed

lemma post_all_ids: "fst (post_all d prs s) = map (\<lambda>(p, r). gen_id r) prs"
  by (induction prs arbitrary: s) (auto simp: split_beta Let_def fst_showToast_with)

text \<open>
  Claim C3. After any sequence of \<^verbatim>\<open>showToast\<close> calls with nothing removed in
  between, the registry lists the posted toasts in the reverse of the call order, most
  recent first, in front of what it held before; read by ids, the list is the reverse of
  the ids the calls returned. Each single call puts the new item at the head of the list
  and returns the id of that item. This holds for either default delay, so for both
  providers.
\<close>

theorem post_all_reverse_order:
  "toasts (snd (post_all d prs s)) = rev (map (\<lambda>(p, r). ToastItem_of (gen_id r) p) prs) @ toasts s \<and>
   ids (snd (post_all d prs s)) = rev (fst (post_all d prs s)) @ ids s \<and>
   ids (snd (post_all d prs AlertsProvider_init)) = rev (fst (post_all d prs AlertsProvider_init)) \<and>
   toasts (snd (showToast_with d p r s)) = ToastItem_of (fst (showToast_with d p r s)) p # toasts s"
  by (simp add: post_all_toasts post_all_ids ids_def rev_map toasts_showToast_with
      fst_showToast_with toast_id_ToastItem_of split_beta o_def AlertsProvider_init_def)

subsection \<open>Posting is total and touches only the registry and the timers\<close>

text \<open>
  The two channels are not empty: \<^verbatim>\<open>toString\<close> raises for a radix out of range,
  \<^verbatim>\<open>useAlerts\<close> throws outside a provider, and the request interceptor reads
  \<^verbatim>\<open>localStorage\<close>.
\<close>

lemma String_slice_id: "String_slice 2 9 rnd = gen_id rnd"
  by (simp add: String_slice_def gen_id_def)

lemma Number_toString_36: "Number_toString 36 rnd w = (Inr rnd, w)"
  by (simp add: Number_toString_def return_prog_def)

lemma Number_toString_out_of_range:
  "radix < 2 \<or> 36 < radix \<Longrightarrow> Number_toString radix rnd w = (Inl RangeError, w)"
  by (auto simp: Number_toString_def throw_prog_def)

lemma bind_prog_Inr: "m w = (Inr x, w') \<Longrightarrow> bind_prog m f w = f x w'"
  by (simp add: bind_prog_def)

lemma bind_prog_Inl: "m w = (Inl e, w') \<Longrightarrow> bind_prog m f w = (Inl e, w')"
  by (simp add: bind_prog_def)

lemma useAlerts_outside: "fst (useAlerts None w) = Inl (Error ''useAlerts must be used inside AlertsProvider'')"
  by (simp add: useAlerts_def throw_prog_def)

lemma request_interceptor_reads_storage:
  "effects (snd (request_interceptor config w)) = effects w @ [StorageGet ''token'']"
  by (simp add: request_interceptor_def bind_prog_def localStorage_getItem_def return_prog_def
      split: option.splits)

lemma showToast_prog_run:
  "showToast_prog d p r w =
     (Inr (gen_id r),
      w\<lparr>alerts := snd (showToast_with d p r (alerts w)),
        effects := effects w @ SetToasts #
          (case p_timeout p of
             Null \<Rightarrow> []
           | Omitted \<Rightarrow> [SetTimer (gen_id r) d]
           | Ms t \<Rightarrow> [SetTimer (gen_id r) t])\<rparr>)"
  by (cases "p_timeout p")
     (simp_all add: showToast_prog_def bind_prog_def Number_toString_def return_prog_def
        String_slice_id setToasts_def window_setTimeout_def showToast_with_def setTimeout_def
        Let_def)

text \<open>
  Claim C9. Run as a program of platform calls on any world, \<^verbatim>\<open>showToast\<close> ends
  with its id and never with an exception, for every payload, every outcome of the
  random draw and either default delay: the one call in it that can raise,
  \<^verbatim>\<open>toString\<close>, gets the radix 36. Its trace of effects is one update of the toasts
  cell followed by at most one registration of a timer for the returned id; it adds no
  input or output to the trace and leaves \<^verbatim>\<open>localStorage\<close> as it is. The state of the
  provider after the call is the one \<open>showToast_with\<close> computes: the new item at the head
  of the registry, at most one new single-shot timer, and the modal, the promises and the
  clock untouched.
\<close>

theorem showToast_never_throws:
  "fst (showToast_prog d p r w) = Inr (gen_id r) \<and>
   fst (showToast_prog d p r w) \<noteq> Inl e \<and>
   filter is_io (effects (snd (showToast_prog d p r w))) = filter is_io (effects w) \<and>
   storage (snd (showToast_prog d p r w)) = storage w \<and>
   effects (snd (showToast_prog d p r w)) =
     effects w @ SetToasts #
       (case p_timeout p of
          Null \<Rightarrow> []
        | Omitted \<Rightarrow> [SetTimer (gen_id r) d]
        | Ms t \<Rightarrow> [SetTimer (gen_id r) t]) \<and>
   alerts (snd (showToast_prog d p r w)) = snd (showToast_with d p r (alerts w)) \<and>
   toasts (alerts (snd (showToast_prog d p r w))) = ToastItem_of (gen_id r) p # toasts (alerts w) \<and>
   timers (alerts (snd (showToast_prog d p r w))) =
     timers (alerts w) @
       (case p_timeout p of
          Null \<Rightarrow> []
        | Omitted \<Rightarrow> [\<lparr>timer_toast = gen_id r, delay = d, set_at = now (alerts w)\<rparr>]
        | Ms t \<Rightarrow> [\<lparr>timer_toast = gen_id r, delay = t, set_at = now (alerts w)\<rparr>]) \<and>
   length (timers (alerts (snd (showToast_prog d p r w)))) \<le> Suc (length (timers (alerts w))) \<and>
   confirmModal (alerts (snd (showToast_prog d p r w))) = confirmModal (alerts w) \<and>
   promises (alerts (snd (showToast_prog d p r w))) = promises (alerts w) \<and>
   now (alerts (snd (showToast_prog d p r w))) = now (alerts w)"
  by (simp add: showToast_prog_run toasts_showToast_with timers_showToast_with
      split: timeout_field.splits)

subsection \<open>Dismissal\<close>

text \<open>
  Claim C6. \<^verbatim>\<open>hideToast\<close> is idempotent: a second call with the same id changes
  nothing any more. With an id that no toast of the registry carries it leaves the state
  as it is; the function has no error branch.
\<close>

theorem hideToast_idempotent:
  "hideToast i (hideToast i s) = hideToast i s \<and>
   (i \<notin> set (ids s) \<longrightarrow> hideToast i s = s)"
proof
  show "hideToast i (hideToast i s) = hideToast i s"
    by (simp add: hideToast_def)
next
  show "i \<notin> set (ids s) \<longrightarrow> hideToast i s = s"
  proof
    assume "i \<notin> set (ids s)"
    then have "filter (\<lambda>t. toast_id t \<noteq> i) (toasts s) = toasts s"
      by (auto simp: ids_def filter_id_conv)
    then show "hideToast i s = s"
      by (simp add: hideToast_def)
  qed
qed

theorem hideToast_idempotent_witness:
  "''zzzzzzz'' \<notin> set (ids one_toast) \<and> hideToast ''zzzzzzz'' one_toast = one_toast"
proof -
  have absent: "''zzzzzzz'' \<notin> set (ids one_toast)"
    by (simp add: one_toast_def showToast_def ids_def toasts_showToast_with ToastItem_of_def
        gen_id_def rnd_a_def AlertsProvider_init_def)
  with hideToast_idempotent [of "''zzzzzzz''" one_toast] show ?thesis
    by simp
qed

text \<open>
  Claim C10. \<^verbatim>\<open>hideToast\<close> touches only the toasts that carry the given id: the
  list of all other toasts, with every field of each, is the same before and after, in the
  same order; what is left is a subsequence of the old list and holds no toast with the
  id. The same holds for the callback of a timer, and for the firing of a timer in the
  event loop.
\<close>

theorem removal_frame:
  "filter (\<lambda>x. toast_id x \<noteq> i) (toasts (hideToast i s)) = filter (\<lambda>x. toast_id x \<noteq> i) (toasts s) \<and>
   filter (\<lambda>x. toast_id x = i) (toasts (hideToast i s)) = [] \<and>
   subseq (toasts (hideToast i s)) (toasts s) \<and>
   filter (\<lambda>x. toast_id x \<noteq> i) (toasts (timeout_callback i s)) = filter (\<lambda>x. toast_id x \<noteq> i) (toasts s) \<and>
   filter (\<lambda>x. toast_id x = i) (toasts (timeout_callback i s)) = [] \<and>
   subseq (toasts (timeout_callback i s)) (toasts s) \<and>
   filter (\<lambda>x. toast_id x \<noteq> timer_toast (timers s ! k)) (toasts (fire k s)) =
     filter (\<lambda>x. toast_id x \<noteq> timer_toast (timers s ! k)) (toasts s) \<and>
   subseq (toasts (fire k s)) (toasts s)"
  by (simp add: fire_def)

subsection \<open>Ids in the registry\<close>

lemma distinct_step:
  assumes "distinct (ids s)"
    and "\<And>p r. e = Post p r \<Longrightarrow> gen_id r \<notin> set (ids s)"
  shows "distinct (ids (step d e s))"
  using assms
  by (cases e) (auto simp: ids_def toasts_showToast_with toast_id_ToastItem_of toasts_fire
      distinct_map_filter)

text \<open>
  Claim C8, as the code has it. The ids come from \<^verbatim>\<open>Math.random\<close> and are not
  compared with the ids in the registry. Starting from a registry whose ids are pairwise
  different, the ids stay pairwise different along every sequence of events in which each
  \<^verbatim>\<open>showToast\<close> draws an id that no toast of the registry carries at that moment;
  dismissals and timers never break the property.
\<close>

theorem distinct_ids_when_fresh:
  "distinct (ids s) \<Longrightarrow> fresh_posts d es s \<Longrightarrow> distinct (ids (run d es s))"
proof (induction es arbitrary: s)
  case Nil
  then show ?case by simp
next
  case (Cons e es)
  have "distinct (ids (step d e s))"
    using Cons.prems by (intro distinct_step) (auto)
  moreover have "fresh_posts d es (step d e s)"
    using Cons.prems(2) by (cases e) simp_all
  ultimately show ?case
    using Cons.IH by simp
qed

theorem distinct_ids_when_fresh_witness:
  "distinct (ids AlertsProvider_init) \<and>
   fresh_posts 4000 [Post toast_joined rnd_a, Post toast_sticky rnd_b, Hide ''4fzyo82'',
      Post toast_welcome rnd_a] AlertsProvider_init \<and>
   distinct (ids (run 4000 [Post toast_joined rnd_a, Post toast_sticky rnd_b, Hide ''4fzyo82'',
      Post toast_welcome rnd_a] AlertsProvider_init))"
proof -
  have h1: "distinct (ids AlertsProvider_init)"
    by (simp add: ids_def AlertsProvider_init_def)
  have h2: "fresh_posts 4000 [Post toast_joined rnd_a, Post toast_sticky rnd_b, Hide ''4fzyo82'',
      Post toast_welcome rnd_a] AlertsProvider_init"
    by (simp add: ex_defs op_defs)
  from distinct_ids_when_fresh [OF h1 h2] h1 h2 show ?thesis by blast
qed

text \<open>
  Claim C8 as stated fails: when two calls of \<^verbatim>\<open>showToast\<close> draw the same random
  number, the registry holds two toasts with the same id.
\<close>

theorem duplicate_ids_counterexample:
  "ids (run 4000 [Post toast_joined rnd_a, Post toast_sticky rnd_a] AlertsProvider_init) =
     [''4fzyo82'', ''4fzyo82''] \<and>
   \<not> distinct (ids (run 4000 [Post toast_joined rnd_a, Post toast_sticky rnd_a] AlertsProvider_init))"
  by (simp add: ex_defs op_defs)

subsection \<open>Timers\<close>

lemma persists_step:
  assumes x: "x \<in> set (toasts s)"
    and safe: "safe_from_timers (toast_id x) (elapsed (e # es)) s"
    and alone: "leaves_alone (toast_id x) e"
  shows "x \<in> set (toasts (step d e s)) \<and> safe_from_timers (toast_id x) (elapsed es) (step d e s)"
proof (cases e)
  case (Post p r)
  with alone have ne: "gen_id r \<noteq> toast_id x" by simp
  have "safe_from_timers (toast_id x) (elapsed es) (snd (showToast_with d p r s))"
    unfolding safe_from_timers_def
  proof (intro ballI impI)
    fix t assume t: "t \<in> set (timers (snd (showToast_with d p r s)))" and i: "timer_toast t = toast_id x"
    from timer_toast_showToast_with [OF t] i ne have "t \<in> set (timers s)" by auto
    with safe i show "int (now (snd (showToast_with d p r s))) + int (elapsed es) < due t"
      by (simp add: safe_from_timers_def Post)
  qed
  with x show ?thesis
    by (simp add: Post toasts_showToast_with)
next
  case (Hide j)
  with x safe alone show ?thesis
    by (simp add: safe_from_timers_def)
next
  case (Confirm opts r)
  with x safe show ?thesis
    by (simp add: safe_from_timers_def)
next
  case (Click v)
  with x safe show ?thesis
    by (simp add: safe_from_timers_def)
next
  case (Tick n)
  with x safe show ?thesis
    by (simp add: safe_from_timers_def add.assoc)
next
  case (Fire k)
  have keep: "x \<in> set (toasts (fire k s))"
  proof (cases "k < length (timers s) \<and> due (timers s ! k) \<le> int (now s)")
    case True
    then have "timers s ! k \<in> set (timers s)" by simp
    with safe True have "timer_toast (timers s ! k) \<noteq> toast_id x"
      by (auto simp: safe_from_timers_def)
    with x True show ?thesis
      by (simp add: toasts_fire)
  next
    case False
    with x show ?thesis
      by (auto simp: toasts_fire)
  qed
  have "safe_from_timers (toast_id x) (elapsed es) (fire k s)"
    using safe set_timers_fire [of k s]
    by (auto simp: safe_from_timers_def Fire)
  with keep show ?thesis
    by (simp add: Fire)
qed

lemma persists_run:
  "x \<in> set (toasts s) \<Longrightarrow> safe_from_timers (toast_id x) (elapsed es) s \<Longrightarrow>
   \<forall>e\<in>set es. leaves_alone (toast_id x) e \<Longrightarrow> x \<in> set (toasts (run d es s))"
proof (induction es arbitrary: s)
  case Nil
  then show ?case by simp
next
  case (Cons e es)
  from persists_step [OF Cons.prems(1,2)] Cons.prems(3)
  have "x \<in> set (toasts (step d e s))"
    and "safe_from_timers (toast_id x) (elapsed es) (step d e s)"
    by simp_all
  with Cons.IH Cons.prems(3) show ?case
    by simp
qed

text \<open>
  Claim C4, as the code has it. A toast posted without a \<^verbatim>\<open>timeout\<close> field gets
  one timer for its id, with the default delay of its provider: 4000 ms in the first
  file, 3000 ms in the second. If no timer for the same id was registered before, then
  while less than that delay has elapsed, \<^verbatim>\<open>hideToast\<close> has not been called with
  the id and no later \<^verbatim>\<open>showToast\<close> has drawn the id again, the toast is still in the
  registry. Once the delay has elapsed the timer can fire, and then no toast with the id
  is left.
\<close>

theorem showToast_default_delay:
  assumes "p_timeout p = Omitted"
  shows "timers (snd (showToast p r s)) =
           timers s @ [\<lparr>timer_toast = fst (showToast p r s), delay = 4000, set_at = now s\<rparr>] \<and>
         timers (snd (showToast_App p r s)) =
           timers s @ [\<lparr>timer_toast = fst (showToast_App p r s), delay = 3000, set_at = now s\<rparr>] \<and>
         (no_timer_for (gen_id r) s \<and> list_all (leaves_alone (gen_id r)) es \<and> int (elapsed es) < d \<longrightarrow>
            ToastItem_of (gen_id r) p \<in> set (toasts (run d es (snd (showToast_with d p r s))))) \<and>
         (0 \<le> d \<longrightarrow>
            gen_id r \<notin> set (ids (fire (length (timers s)) (tick (nat d) (snd (showToast_with d p r s))))))"
proof (intro conjI impI)
  show "timers (snd (showToast p r s)) =
           timers s @ [\<lparr>timer_toast = fst (showToast p r s), delay = 4000, set_at = now s\<rparr>]"
    using assms by (simp add: showToast_def timers_showToast_with fst_showToast_with)
  show "timers (snd (showToast_App p r s)) =
           timers s @ [\<lparr>timer_toast = fst (showToast_App p r s), delay = 3000, set_at = now s\<rparr>]"
    using assms by (simp add: showToast_App_def timers_showToast_with fst_showToast_with)
next
  assume h: "no_timer_for (gen_id r) s \<and> list_all (leaves_alone (gen_id r)) es \<and> int (elapsed es) < d"
  let ?x = "ToastItem_of (gen_id r) p"
  let ?s1 = "snd (showToast_with d p r s)"
  have x: "?x \<in> set (toasts ?s1)"
    by (simp add: toasts_showToast_with)
  have safe: "safe_from_timers (toast_id ?x) (elapsed es) ?s1"
    using h assms
    by (auto simp: safe_from_timers_def no_timer_for_def list_all_iff timers_showToast_with
        toast_id_ToastItem_of due_def)
  have alone: "\<forall>e\<in>set es. leaves_alone (toast_id ?x) e"
    using h by (simp add: list_all_iff toast_id_ToastItem_of)
  from persists_run [OF x safe alone]
  show "?x \<in> set (toasts (run d es ?s1))" .
next
  assume d: "0 \<le> d"
  let ?s1 = "snd (showToast_with d p r s)"
  let ?k = "length (timers s)"
  have tm: "timers ?s1 ! ?k = \<lparr>timer_toast = gen_id r, delay = d, set_at = now s\<rparr>"
    using assms by (simp add: timers_showToast_with)
  have len: "?k < length (timers (tick (nat d) ?s1))"
    using assms by (simp add: timers_showToast_with)
  have "due (timers (tick (nat d) ?s1) ! ?k) \<le> int (now (tick (nat d) ?s1))"
    using d by (simp add: tm due_def)
  with len have "toasts (fire ?k (tick (nat d) ?s1)) =
      filter (\<lambda>x. toast_id x \<noteq> gen_id r) (toasts (tick (nat d) ?s1))"
    by (simp add: toasts_fire tm)
  then show "gen_id r \<notin> set (ids (fire ?k (tick (nat d) ?s1)))"
    by (auto simp: ids_def)
qed

theorem showToast_default_delay_witness:
  "p_timeout toast_joined = Omitted \<and>
   no_timer_for (gen_id rnd_a) AlertsProvider_init \<and>
   list_all (leaves_alone (gen_id rnd_a)) [Post toast_sticky rnd_b, Tick 3999, Fire 0] \<and>
   int (elapsed [Post toast_sticky rnd_b, Tick 3999, Fire 0]) < 4000 \<and>
   (0::int) \<le> 4000 \<and>
   ToastItem_of (gen_id rnd_a) toast_joined \<in> set (toasts (run 4000
      [Post toast_sticky rnd_b, Tick 3999, Fire 0]
      (snd (showToast_with 4000 toast_joined rnd_a AlertsProvider_init)))) \<and>
   gen_id rnd_a \<notin> set (ids (fire (length (timers AlertsProvider_init))
      (tick (nat 4000) (snd (showToast_with 4000 toast_joined rnd_a AlertsProvider_init)))))"
proof -
  have h: "p_timeout toast_joined = Omitted"
    by (simp add: toast_joined_def)
  have g: "no_timer_for (gen_id rnd_a) AlertsProvider_init \<and>
   list_all (leaves_alone (gen_id rnd_a)) [Post toast_sticky rnd_b, Tick 3999, Fire 0] \<and>
   int (elapsed [Post toast_sticky rnd_b, Tick 3999, Fire 0]) < 4000"
    by (simp add: no_timer_for_def ex_defs gen_id_def)
  from showToast_default_delay [OF h, of rnd_a AlertsProvider_init
      "[Post toast_sticky rnd_b, Tick 3999, Fire 0]" 4000] h g
  show ?thesis by simp
qed

text \<open>
  Claim C4 as stated fails. In the second file the timer of a toast posted without a
  \<^verbatim>\<open>timeout\<close> field has the delay 3000, not 4000, and the toast is gone after 3000
  ms. In the first file a toast with the default delay is removed after 2500 ms when it
  drew the id of an earlier toast whose timer fires then.
\<close>

theorem default_delay_counterexample:
  "p_timeout toast_joined = Omitted \<and>
   timers (snd (showToast_App toast_joined rnd_a AlertsProvider_init)) =
     [\<lparr>timer_toast = ''4fzyo82'', delay = 3000, set_at = 0\<rparr>] \<and>
   toasts (run 3000 [Post toast_joined rnd_a, Tick 3000] AlertsProvider_init) \<noteq> [] \<and>
   toasts (run 3000 [Post toast_joined rnd_a, Tick 3000, Fire 0] AlertsProvider_init) = [] \<and>
   toasts (run 4000 [Post toast_welcome rnd_a, Post toast_joined rnd_a, Tick 2500]
             AlertsProvider_init) \<noteq> [] \<and>
   toasts (run 4000 [Post toast_welcome rnd_a, Post toast_joined rnd_a, Tick 2500, Fire 0]
             AlertsProvider_init) = []"
  by (simp add: ex_defs op_defs)

text \<open>
  Claim C5, as the code has it. Posting a toast with \<^verbatim>\<open>timeout: null\<close> registers no
  timer. If no timer for the same id was registered before, the toast stays in the
  registry along every sequence of events in which \<^verbatim>\<open>hideToast\<close> is not called with
  its id and no later \<^verbatim>\<open>showToast\<close> draws the id again, however much time passes.
\<close>

theorem showToast_null_no_timer:
  assumes "p_timeout p = Null"
  shows "timers (snd (showToast_with d p r s)) = timers s \<and>
         (no_timer_for (gen_id r) s \<and> list_all (leaves_alone (gen_id r)) es \<longrightarrow>
            ToastItem_of (gen_id r) p \<in> set (toasts (run d es (snd (showToast_with d p r s)))))"
proof (intro conjI impI)
  show "timers (snd (showToast_with d p r s)) = timers s"
    using assms by (simp add: timers_showToast_with)
next
  assume h: "no_timer_for (gen_id r) s \<and> list_all (leaves_alone (gen_id r)) es"
  let ?x = "ToastItem_of (gen_id r) p"
  let ?s1 = "snd (showToast_with d p r s)"
  have x: "?x \<in> set (toasts ?s1)"
    by (simp add: toasts_showToast_with)
  have safe: "safe_from_timers (toast_id ?x) (elapsed es) ?s1"
    using h assms
    by (auto simp: safe_from_timers_def no_timer_for_def list_all_iff timers_showToast_with
        toast_id_ToastItem_of)
  have alone: "\<forall>e\<in>set es. leaves_alone (toast_id ?x) e"
    using h by (simp add: list_all_iff toast_id_ToastItem_of)
  from persists_run [OF x safe alone]
  show "?x \<in> set (toasts (run d es ?s1))" .
qed

theorem showToast_null_no_timer_witness:
  "p_timeout toast_sticky = Null \<and>
   no_timer_for (gen_id rnd_b) one_toast \<and>
   list_all (leaves_alone (gen_id rnd_b)) [Tick 100000, Fire 0, Hide ''4fzyo82''] \<and>
   timers (snd (showToast_with 4000 toast_sticky rnd_b one_toast)) = timers one_toast \<and>
   ToastItem_of (gen_id rnd_b) toast_sticky \<in> set (toasts (run 4000
      [Tick 100000, Fire 0, Hide ''4fzyo82'']
      (snd (showToast_with 4000 toast_sticky rnd_b one_toast))))"
proof -
  have h: "p_timeout toast_sticky = Null"
    by (simp add: toast_sticky_def)
  have g: "no_timer_for (gen_id rnd_b) one_toast \<and>
   list_all (leaves_alone (gen_id rnd_b)) [Tick 100000, Fire 0, Hide ''4fzyo82'']"
    by (simp add: no_timer_for_def ex_defs op_defs)
  from showToast_null_no_timer [OF h, of 4000 rnd_b one_toast
      "[Tick 100000, Fire 0, Hide ''4fzyo82'']"] h g
  show ?thesis by simp
qed

text \<open>
  Claim C5 as stated fails: a toast posted with \<^verbatim>\<open>timeout: null\<close> that drew the id
  of an earlier toast is removed when the timer of the earlier toast fires, with no call
  of \<^verbatim>\<open>hideToast\<close>.
\<close>

theorem null_timeout_counterexample:
  "p_timeout toast_sticky = Null \<and>
   toasts (run 4000 [Post toast_joined rnd_a, Post toast_sticky rnd_a, Tick 4000]
             AlertsProvider_init) =
     [ToastItem_of ''4fzyo82'' toast_sticky, ToastItem_of ''4fzyo82'' toast_joined] \<and>
   toasts (run 4000 [Post toast_joined rnd_a, Post toast_sticky rnd_a, Tick 4000, Fire 0]
             AlertsProvider_init) = []"
  by (simp add: ex_defs op_defs)

lemma absent_step:
  "i \<notin> set (ids s) \<Longrightarrow> \<not> posts_id i e \<Longrightarrow> i \<notin> set (ids (step d e s))"
  by (cases e) (auto simp: ids_def toasts_showToast_with toast_id_ToastItem_of toasts_fire)

lemma absent_run:
  "i \<notin> set (ids s) \<Longrightarrow> list_all (\<lambda>e. \<not> posts_id i e) es \<Longrightarrow> i \<notin> set (ids (run d es s))"
  by (induction es arbitrary: s) (simp_all add: absent_step)

lemma fire_absent:
  assumes "i \<notin> set (ids s)" and "timer_toast (timers s ! k) = i"
  shows "toasts (fire k s) = toasts s"
proof -
  from assms(1) have "\<forall>x\<in>set (toasts s). toast_id x \<noteq> i"
    by (auto simp: ids_def)
  then have "filter (\<lambda>x. toast_id x \<noteq> i) (toasts s) = toasts s"
    by (simp add: filter_id_conv)
  with assms(2) show ?thesis
    by (simp add: toasts_fire)
qed

text \<open>
  Claim C7, as the code has it. \<^verbatim>\<open>hideToast\<close> does not cancel anything: the
  registered timers are the same before and after. The toast is gone at once, and as long
  as no later \<^verbatim>\<open>showToast\<close> draws the same id, the firing of a timer for that id
  leaves the registry as it is.
\<close>

theorem hideToast_keeps_timer:
  "timers (hideToast i s) = timers s \<and>
   i \<notin> set (ids (hideToast i s)) \<and>
   (list_all (\<lambda>e. \<not> posts_id i e) es \<and> timer_toast (timers (run d es (hideToast i s)) ! k) = i \<longrightarrow>
      toasts (fire k (run d es (hideToast i s))) = toasts (run d es (hideToast i s)))"
proof (intro conjI impI)
  show "timers (hideToast i s) = timers s" by simp
  show gone: "i \<notin> set (ids (hideToast i s))" by (auto simp: ids_def)
  assume h: "list_all (\<lambda>e. \<not> posts_id i e) es \<and> timer_toast (timers (run d es (hideToast i s)) ! k) = i"
  then have "i \<notin> set (ids (run d es (hideToast i s)))"
    using gone by (simp add: absent_run)
  with h show "toasts (fire k (run d es (hideToast i s))) = toasts (run d es (hideToast i s))"
    by (simp add: fire_absent)
qed

theorem hideToast_keeps_timer_witness:
  "list_all (\<lambda>e. \<not> posts_id ''4fzyo82'' e) [Post toast_sticky rnd_b, Tick 4000] \<and>
   timer_toast (timers (run 4000 [Post toast_sticky rnd_b, Tick 4000] (hideToast ''4fzyo82'' one_toast)) ! 0)
     = ''4fzyo82'' \<and>
   toasts (fire 0 (run 4000 [Post toast_sticky rnd_b, Tick 4000] (hideToast ''4fzyo82'' one_toast))) =
     toasts (run 4000 [Post toast_sticky rnd_b, Tick 4000] (hideToast ''4fzyo82'' one_toast))"
proof -
  have h: "list_all (\<lambda>e. \<not> posts_id ''4fzyo82'' e) [Post toast_sticky rnd_b, Tick 4000] \<and>
   timer_toast (timers (run 4000 [Post toast_sticky rnd_b, Tick 4000] (hideToast ''4fzyo82'' one_toast)) ! 0)
     = ''4fzyo82''"
    by (simp add: ex_defs op_defs)
  from hideToast_keeps_timer [of "''4fzyo82''" one_toast "[Post toast_sticky rnd_b, Tick 4000]" 4000 0] h
  show ?thesis by blast
qed

text \<open>
  Claim C7 as stated fails: after \<^verbatim>\<open>hideToast\<close> the timer of the dismissed toast is
  still registered, and when a later toast draws the same id, the old timer removes the
  new toast.
\<close>

theorem hideToast_cancel_counterexample:
  "timers one_toast = [\<lparr>timer_toast = ''4fzyo82'', delay = 4000, set_at = 0\<rparr>] \<and>
   timers (hideToast ''4fzyo82'' one_toast) = [\<lparr>timer_toast = ''4fzyo82'', delay = 4000, set_at = 0\<rparr>] \<and>
   toasts (run 4000 [Hide ''4fzyo82'', Post toast_sticky rnd_a, Tick 4000] one_toast) =
     [ToastItem_of ''4fzyo82'' toast_sticky] \<and>
   toasts (run 4000 [Hide ''4fzyo82'', Post toast_sticky rnd_a, Tick 4000, Fire 0] one_toast) = []"
  by (simp add: ex_defs op_defs)

section \<open>The confirm modal\<close>

lemma promises_step_Fulfilled:
  assumes "q < length (promises s)" "promises s ! q = Fulfilled w"
  shows "q < length (promises (step d e s)) \<and> promises (step d e s) ! q = Fulfilled w"
  using assms
  by (cases e) (auto simp: click_def nth_append settle_Fulfilled split: option.splits)

lemma promises_run_Fulfilled:
  "q < length (promises s) \<Longrightarrow> promises s ! q = Fulfilled w \<Longrightarrow>
   q < length (promises (run d es s)) \<and> promises (run d es s) ! q = Fulfilled w"
proof (induction es arbitrary: s)
  case Nil
  then show ?case by simp
next
  case (Cons e es)
  from promises_step_Fulfilled [OF Cons.prems] Cons.IH show ?case
    by simp
qed

lemma confirmModal_confirm:
  "\<exists>p. confirmModal (snd (confirm opts r s)) = Some p \<and> resolve p = length (promises s)"
  by (simp add: confirm_def Let_def)

lemma click_after_confirm:
  "promises (click v (snd (confirm opts r s))) ! length (promises s) = Fulfilled v"
proof -
  obtain p where p: "confirmModal (snd (confirm opts r s)) = Some p"
    and rp: "resolve p = length (promises s)"
    using confirmModal_confirm by blast
  show ?thesis
    by (simp add: click_def p rp settle_Pending)
qed

lemma toast_events_keep_modal:
  "list_all toast_event es \<Longrightarrow>
   confirmModal (run d es s) = confirmModal s \<and> promises (run d es s) = promises s"
proof (induction es arbitrary: s)
  case Nil
  show ?case by simp
next
  case (Cons e es)
  then have "confirmModal (step d e s) = confirmModal s \<and> promises (step d e s) = promises s"
    by (cases e) simp_all
  with Cons show ?case by simp
qed

text \<open>
  Claim C2. A confirmation created by \<^verbatim>\<open>confirm\<close> stays in the modal while toasts
  come and go. When one of its two buttons is clicked, its promise, pending until then,
  is fulfilled with the value of that button and the modal is cleared. Calling the
  payload's \<^verbatim>\<open>resolve\<close> again, or clicking again, changes nothing in that state, and
  in every later state a further call of the payload's \<^verbatim>\<open>resolve\<close> leaves the promise
  fulfilled with the first value.
\<close>

theorem confirm_settles_exactly_once:
  assumes "list_all toast_event es"
  shows "\<exists>p. confirmModal (run d es (snd (confirm opts r s))) = Some p \<and>
        resolve p = fst (confirm opts r s) \<and>
        promises (run d es (snd (confirm opts r s))) ! resolve p = Pending \<and>
        promises (click v (run d es (snd (confirm opts r s)))) ! resolve p = Fulfilled v \<and>
        confirmModal (click v (run d es (snd (confirm opts r s)))) = None \<and>
        (\<forall>v'. call_resolve p v' (click v (run d es (snd (confirm opts r s))))
                = click v (run d es (snd (confirm opts r s)))) \<and>
        (\<forall>v'. click v' (click v (run d es (snd (confirm opts r s))))
                = click v (run d es (snd (confirm opts r s)))) \<and>
        (\<forall>v' es'. promises (call_resolve p v'
                     (run d es' (click v (run d es (snd (confirm opts r s)))))) ! resolve p
                   = Fulfilled v)"
proof -
  define q where "q = length (promises s)"
  define s1 where "s1 = run d es (snd (confirm opts r s))"
  define s2 where "s2 = click v s1"
  from toast_events_keep_modal [OF assms, of d "snd (confirm opts r s)"]
  have cm: "confirmModal s1 = confirmModal (snd (confirm opts r s))"
    and pr: "promises s1 = promises s @ [Pending]"
    by (simp_all add: s1_def)
  obtain p where p: "confirmModal s1 = Some p" and rp: "resolve p = q"
    using confirmModal_confirm [of opts r s] by (auto simp: cm q_def)
  have pend: "promises s1 ! q = Pending"
    by (simp add: pr q_def)
  have len: "q < length (promises s1)"
    by (simp add: pr q_def)
  have s2: "s2 = call_resolve p v s1"
    by (simp add: s2_def click_def p)
  have ful: "promises s2 ! q = Fulfilled v"
    using pend len by (simp add: s2 rp settle_Pending)
  have len2: "q < length (promises s2)"
    using len by (simp add: s2)
  have none: "confirmModal s2 = None"
    by (simp add: s2)
  have again: "call_resolve p v' s2 = s2" for v'
    using ful none by (simp add: call_resolve_def rp settle_settled)
  have click_again: "click v' s2 = s2" for v'
    by (simp add: click_def none)
  have later: "promises (call_resolve p v' (run d es' s2)) ! q = Fulfilled v" for v' es'
    using promises_run_Fulfilled [OF len2 ful, of d es']
    by (simp add: rp settle_Fulfilled)
  have "confirmModal s1 = Some p \<and> resolve p = q \<and> promises s1 ! resolve p = Pending \<and>
        promises s2 ! resolve p = Fulfilled v \<and> confirmModal s2 = None \<and>
        (\<forall>v'. call_resolve p v' s2 = s2) \<and> (\<forall>v'. click v' s2 = s2) \<and>
        (\<forall>v' es'. promises (call_resolve p v' (run d es' s2)) ! resolve p = Fulfilled v)"
    using p rp pend ful none again click_again later by simp
  then have "\<exists>p. confirmModal s1 = Some p \<and> resolve p = q \<and> promises s1 ! resolve p = Pending \<and>
        promises s2 ! resolve p = Fulfilled v \<and> confirmModal s2 = None \<and>
        (\<forall>v'. call_resolve p v' s2 = s2) \<and> (\<forall>v'. click v' s2 = s2) \<and>
        (\<forall>v' es'. promises (call_resolve p v' (run d es' s2)) ! resolve p = Fulfilled v)"
    by (rule exI)
  then show ?thesis
    unfolding s1_def s2_def q_def confirm_fields(1) .
qed

theorem confirm_settles_exactly_once_witness:
  "list_all toast_event [Post toast_joined rnd_a, Tick 5000, Fire 0] \<and>
   promises (click False (run 4000 [Post toast_joined rnd_a, Tick 5000, Fire 0]
      (snd (confirm confirm_remove rnd_b AlertsProvider_init)))) = [Fulfilled False] \<and>
   (\<exists>p. confirmModal (run 4000 [Post toast_joined rnd_a, Tick 5000, Fire 0]
            (snd (confirm confirm_remove rnd_b AlertsProvider_init))) = Some p \<and>
        promises (call_resolve p True (click False (run 4000 [Post toast_joined rnd_a, Tick 5000, Fire 0]
            (snd (confirm confirm_remove rnd_b AlertsProvider_init))))) ! resolve p = Fulfilled False)"
proof -
  have h: "list_all toast_event [Post toast_joined rnd_a, Tick 5000, Fire 0]"
    by simp
  have v: "promises (click False (run 4000 [Post toast_joined rnd_a, Tick 5000, Fire 0]
      (snd (confirm confirm_remove rnd_b AlertsProvider_init)))) = [Fulfilled False]"
    by (simp add: ex_defs op_defs)
  from confirm_settles_exactly_once [OF h, of 4000 confirm_remove rnd_b AlertsProvider_init False]
  obtain p where "confirmModal (run 4000 [Post toast_joined rnd_a, Tick 5000, Fire 0]
            (snd (confirm confirm_remove rnd_b AlertsProvider_init))) = Some p"
    and "\<forall>v' es'. promises (call_resolve p v'
                     (run 4000 es' (click False (run 4000 [Post toast_joined rnd_a, Tick 5000, Fire 0]
            (snd (confirm confirm_remove rnd_b AlertsProvider_init)))))) ! resolve p
                   = Fulfilled False"
    by blast
  then have "confirmModal (run 4000 [Post toast_joined rnd_a, Tick 5000, Fire 0]
            (snd (confirm confirm_remove rnd_b AlertsProvider_init))) = Some p \<and>
        promises (call_resolve p True (click False (run 4000 [Post toast_joined rnd_a, Tick 5000, Fire 0]
            (snd (confirm confirm_remove rnd_b AlertsProvider_init))))) ! resolve p = Fulfilled False"
    using run.simps(1) [of 4000] by metis
  with h v show ?thesis by blast
qed

lemma orphaned_step: "orphaned q s \<Longrightarrow> orphaned q (step d e s)"
proof (cases e)
  case (Click v)
  assume "orphaned q s"
  then show ?thesis
    by (auto simp: Click orphaned_def click_def settle_other split: option.splits)
next
  case (Confirm opts r)
  assume "orphaned q s"
  then show ?thesis
    by (auto simp: Confirm orphaned_def nth_append)
qed (auto simp: orphaned_def)

lemma orphaned_run: "orphaned q s \<Longrightarrow> orphaned q (run d es s)"
  by (induction es arbitrary: s) (simp_all add: orphaned_step)

text \<open>
  Claim C1, as the code has it. \<^verbatim>\<open>confirm\<close> does not look at the modal: called
  while a confirmation is pending, it neither rejects nor queues the new request but
  puts the new payload in place of the old one. The new promise is pending and the next
  click fulfils it. The first promise is a different one; it is still pending, and it
  stays pending along every sequence of events of the provider.
\<close>

theorem confirm_replaces_pending:
  assumes "confirmModal s = Some p"
    and "resolve p < length (promises s)"
    and "promises s ! resolve p = Pending"
  shows "map_option resolve (confirmModal (snd (confirm opts r s))) = Some (fst (confirm opts r s)) \<and>
         fst (confirm opts r s) \<noteq> resolve p \<and>
         promises (snd (confirm opts r s)) ! fst (confirm opts r s) = Pending \<and>
         promises (click v (snd (confirm opts r s))) ! fst (confirm opts r s) = Fulfilled v \<and>
         (\<forall>es. promises (run d es (snd (confirm opts r s))) ! resolve p = Pending)"
proof -
  have orph: "orphaned (resolve p) (snd (confirm opts r s))"
    using assms by (simp add: orphaned_def nth_append)
  have "\<forall>es. promises (run d es (snd (confirm opts r s))) ! resolve p = Pending"
    using orphaned_run [OF orph] by (simp add: orphaned_def)
  moreover have "promises (click v (snd (confirm opts r s))) ! fst (confirm opts r s) = Fulfilled v"
    by (simp add: click_after_confirm)
  ultimately show ?thesis
    using assms by simp
qed

theorem confirm_replaces_pending_witness:
  "confirmModal one_pending = Some payload_remove \<and>
   resolve payload_remove < length (promises one_pending) \<and>
   promises one_pending ! resolve payload_remove = Pending \<and>
   fst (confirm confirm_delete rnd_b one_pending) \<noteq> resolve payload_remove \<and>
   promises (run 4000 [Click True, Tick 60000, Click False]
      (snd (confirm confirm_delete rnd_b one_pending))) ! resolve payload_remove = Pending"
proof -
  have h1: "confirmModal one_pending = Some payload_remove"
    by (simp add: ex_defs op_defs)
  have h2: "resolve payload_remove < length (promises one_pending)"
    by (simp add: ex_defs op_defs)
  have h3: "promises one_pending ! resolve payload_remove = Pending"
    by (simp add: ex_defs op_defs)
  from confirm_replaces_pending [OF h1 h2 h3, of confirm_delete rnd_b True 4000] h1 h2 h3
  show ?thesis by blast
qed

text \<open>
  Claim C1 as stated fails: after two calls of \<^verbatim>\<open>confirm\<close> in a row the modal
  holds the second payload only; one click fulfils the second promise and clears the
  modal, and the first promise is left pending with nothing queued.
\<close>

theorem confirm_overwrites_counterexample:
  "confirmModal one_pending = Some payload_remove \<and>
   promises one_pending = [Pending] \<and>
   confirmModal two_requests = Some payload_delete \<and>
   promises two_requests = [Pending, Pending] \<and>
   promises (click True two_requests) = [Pending, Fulfilled True] \<and>
   confirmModal (click True two_requests) = None \<and>
   click False (click True two_requests) = click True two_requests"
  by (simp add: ex_defs op_defs)

end
